theory Spec2Isabelle
  imports Main "HOL-Library.Sublist"
begin

section \<open>Strings and character classes\<close>

text \<open>
  A Python \<open>str\<close> is modelled as a \<^typ>\<open>string\<close> whose characters are the code points
  below 256, so \<^const>\<open>length\<close> is Python's \<open>len\<close>. The character classes are those of
  Python's Unicode tables on that range: the only decimal digits are \<open>0\<close> to \<open>9\<close>, and
  \<open>str.isspace\<close> holds for the code points 9 to 13, 28 to 32, 133 and 160.
\<close>

definition is_digit :: "char \<Rightarrow> bool" where
  "is_digit c = (let n = (of_char c :: nat) in 48 \<le> n \<and> n \<le> 57)"

definition is_space :: "char \<Rightarrow> bool" where
  "is_space c =
     (let n = (of_char c :: nat)
      in (9 \<le> n \<and> n \<le> 13) \<or> (28 \<le> n \<and> n \<le> 32) \<or> n = 133 \<or> n = 160)"

text \<open>\<open>str.strip()\<close> without arguments removes leading and trailing whitespace.\<close>

definition lstrip :: "string \<Rightarrow> string" where
  "lstrip s = dropWhile is_space s"

definition rstrip :: "string \<Rightarrow> string" where
  "rstrip s = rev (dropWhile is_space (rev s))"

definition strip :: "string \<Rightarrow> string" where
  "strip s = lstrip (rstrip s)"

text \<open>
  \<open>str.replace(old, new)\<close> replaces the occurrences of \<open>old\<close> from left to right, without
  overlap; with an empty \<open>old\<close> Python inserts \<open>new\<close> before every character and at the end.
\<close>

function str_replace :: "string \<Rightarrow> string \<Rightarrow> string \<Rightarrow> string" where
  "str_replace old new [] = (if old = [] then new else [])"
| "str_replace old new (c # cs) =
     (if old = [] then new @ c # str_replace old new cs
      else if prefix old (c # cs) then new @ str_replace old new (drop (length old) (c # cs))
      else c # str_replace old new cs)"
  by pat_completeness auto
termination
  by (relation "measure (\<lambda>(old, new, s). length s)") (auto simp: neq_Nil_conv)

text \<open>The decimal numeral of a non-negative integer, as \<open>str(n)\<close> and an f-string print it.\<close>

definition digit_char :: "nat \<Rightarrow> char" where
  "digit_char d = ''0123456789'' ! d"

function str_nat :: "nat \<Rightarrow> string" where
  "str_nat n = (if n < 10 then [digit_char n] else str_nat (n div 10) @ [digit_char (n mod 10)])"
  by pat_completeness auto
termination
  by (relation "measure id") auto

declare str_nat.simps [simp del]

section \<open>Regular expressions and \<open>re.match\<close>\<close>

text \<open>
  The patterns of the detector are terms of a small regular-expression type. An atom is a
  character class. \<open>re.match\<close> anchors at the start of the string only, so it succeeds when
  some prefix of the string is in the pattern's language; the matcher decides this with
  derivatives.
\<close>

datatype regex =
    Zero
  | Eps
  | Atom "char \<Rightarrow> bool"
  | Alt regex regex
  | Seq regex regex
  | Star regex

fun nullable :: "regex \<Rightarrow> bool" where
  "nullable Zero = False"
| "nullable Eps = True"
| "nullable (Atom p) = False"
| "nullable (Alt a b) = (nullable a \<or> nullable b)"
| "nullable (Seq a b) = (nullable a \<and> nullable b)"
| "nullable (Star a) = True"

fun deriv :: "char \<Rightarrow> regex \<Rightarrow> regex" where
  "deriv c Zero = Zero"
| "deriv c Eps = Zero"
| "deriv c (Atom p) = (if p c then Eps else Zero)"
| "deriv c (Alt a b) = Alt (deriv c a) (deriv c b)"
| "deriv c (Seq a b) =
     (if nullable a then Alt (Seq (deriv c a) b) (deriv c b) else Seq (deriv c a) b)"
| "deriv c (Star a) = Seq (deriv c a) (Star a)"

fun re_match :: "regex \<Rightarrow> string \<Rightarrow> bool" where
  "re_match r [] = nullable r"
| "re_match r (c # cs) = (nullable r \<or> re_match (deriv c r) cs)"

text \<open>The pattern syntax used by the source.\<close>

definition lit :: "char \<Rightarrow> regex" where
  "lit c = Atom (\<lambda>x. x = c)"

definition digit :: regex where
  "digit = Atom is_digit"

definition opt :: "regex \<Rightarrow> regex" where
  "opt r = Alt r Eps"

definition plus :: "regex \<Rightarrow> regex" where
  "plus r = Seq r (Star r)"

fun rep :: "nat \<Rightarrow> regex \<Rightarrow> regex" where
  "rep 0 r = Eps"
| "rep (Suc n) r = Seq r (rep n r)"

definition rep_range :: "nat \<Rightarrow> nat \<Rightarrow> regex \<Rightarrow> regex" where
  "rep_range m n r = Seq (rep m r) (rep (n - m) (opt r))"

fun seqs :: "regex list \<Rightarrow> regex" where
  "seqs [] = Eps"
| "seqs (r # rs) = Seq r (seqs rs)"

text \<open>The denotation of a pattern, against which the matcher is verified.\<close>

inductive_set star :: "string set \<Rightarrow> string set" for A :: "string set" where
  star_Nil: "[] \<in> star A"
| star_App: "u \<in> A \<Longrightarrow> v \<in> star A \<Longrightarrow> u @ v \<in> star A"

definition conc :: "string set \<Rightarrow> string set \<Rightarrow> string set" where
  "conc A B = {u @ v | u v. u \<in> A \<and> v \<in> B}"

fun lang :: "regex \<Rightarrow> string set" where
  "lang Zero = {}"
| "lang Eps = {[]}"
| "lang (Atom p) = {[c] | c. p c}"
| "lang (Alt a b) = lang a \<union> lang b"
| "lang (Seq a b) = conc (lang a) (lang b)"
| "lang (Star a) = star (lang a)"

definition has_prefix_in :: "string set \<Rightarrow> string \<Rightarrow> bool" where
  "has_prefix_in L s = (\<exists>m g. s = m @ g \<and> m \<in> L)"

section \<open>The type detector\<close>

text \<open>The four patterns of \<open>detect_data_type\<close>, in the order of the source.\<close>

definition pat_iso_date :: regex where
  \<comment> \<open>\<^verbatim>\<open>\d{4}-\d{2}-\d{2}\<close>\<close>
  "pat_iso_date = seqs [rep 4 digit, lit CHR ''-'', rep 2 digit, lit CHR ''-'', rep 2 digit]"

definition pat_us_date :: regex where
  \<comment> \<open>\<^verbatim>\<open>\d{2}/\d{2}/\d{4}\<close>\<close>
  "pat_us_date = seqs [rep 2 digit, lit CHR ''/'', rep 2 digit, lit CHR ''/'', rep 4 digit]"

definition pat_currency :: regex where
  \<comment> \<open>\<^verbatim>\<open>\$\d+(\,\d{3})*(\.\d{2})?\<close>\<close>
  "pat_currency =
     seqs [lit CHR ''$'', plus digit,
           Star (seqs [lit CHR '','', rep 3 digit]),
           opt (seqs [lit CHR ''.'', rep 2 digit])]"

definition sep :: regex where
  \<comment> \<open>\<^verbatim>\<open>[-.\s]\<close>\<close>
  "sep = Atom (\<lambda>c. c = CHR ''-'' \<or> c = CHR ''.'' \<or> is_space c)"

definition pat_telephone :: regex where
  \<comment> \<open>\<^verbatim>\<open>(\+\d{1,3})?\s?\(?\d{3}\)?[-.\s]?\d{3}[-.\s]?\d{4}\<close>\<close>
  "pat_telephone =
     seqs [opt (seqs [lit CHR ''+'', rep_range 1 3 digit]),
           opt (Atom is_space),
           opt (lit CHR ''(''),
           rep 3 digit,
           opt (lit CHR '')''),
           opt sep,
           rep 3 digit,
           opt sep,
           rep 4 digit]"

text \<open>
  The argument of \<open>detect_data_type\<close> is any Python object; the source asks whether it is a
  string, so the model keeps the two cases apart.
\<close>

datatype pyobj = Str string | NotStr

definition detect_data_type :: "pyobj \<Rightarrow> string" where
  "detect_data_type v =
     (case v of
        NotStr \<Rightarrow> ''unknown''
      | Str s \<Rightarrow>
          (let data = strip s
           in if data = [] then ''unknown''
              else if re_match pat_iso_date data then ''date''
              else if re_match pat_us_date data then ''date''
              else if re_match pat_currency data then ''currency''
              else if re_match pat_telephone data then ''telephone''
              else ''unknown''))"


section \<open>Exceptions, the log and the libraries\<close>

text \<open>
  The exceptions that reach a handler of the program. All of them are subclasses of
  Python's \<open>Exception\<close>; \<open>ValueError\<close> stands for its subclasses too (the \<open>ParserError\<close> of
  \<open>dateutil\<close> is one). \<open>sys.exit\<close> is not among them: \<open>SystemExit\<close> is not an \<open>Exception\<close>,
  no handler of the program catches it, and the model returns its exit code directly.
\<close>

datatype exn =
    ValueError
  | IndexError
  | FileNotFoundError
  | StopIteration
  | AttributeError
  | ImportError
  | TypeError
  | OverflowError
  | OSError

text \<open>One constructor for each logging call of the source.\<close>

datatype log_entry =
    Could_not_parse_date string
  | Unknown_data_type string
  | Error_permuting exn
  | Column_not_found string
  | Row_fewer_columns
  | Error_processing_row exn
  | Masking_completed string
  | File_not_found string
  | Unexpected_error exn

datatype level = INFO | WARNING | ERROR

fun level_of :: "log_entry \<Rightarrow> level" where
  "level_of (Could_not_parse_date d) = WARNING"
| "level_of (Unknown_data_type t) = WARNING"
| "level_of (Error_permuting e) = ERROR"
| "level_of (Column_not_found c) = ERROR"
| "level_of Row_fewer_columns = WARNING"
| "level_of (Error_processing_row e) = ERROR"
| "level_of (Masking_completed p) = INFO"
| "level_of (File_not_found p) = ERROR"
| "level_of (Unexpected_error e) = ERROR"

record datetime =
  year :: nat
  month :: nat
  day :: nat

definition zfill :: "nat \<Rightarrow> string \<Rightarrow> string" where
  "zfill n s = replicate (n - length s) CHR ''0'' @ s"

definition strftime_ymd :: "datetime \<Rightarrow> string" where
  \<comment> \<open>\<^verbatim>\<open>strftime('%Y-%m-%d')\<close>\<close>
  "strftime_ymd d =
     zfill 4 (str_nat (year d)) @ ''-'' @ zfill 2 (str_nat (month d)) @ ''-'' @
     zfill 2 (str_nat (day d))"

text \<open>
  The libraries the program calls are parameters of the model. A call either raises or
  returns; the calls that draw random values take the state \<open>'g\<close> of the generator and
  return the next one. The methods of a \<open>Faker\<close> object take the locale it was built
  with. \<open>'a\<close> is the type of a parsed \<open>float\<close>.
\<close>

record ('g, 'a) lib =
  Faker :: "string \<Rightarrow> exn option"
  date_time_this_decade :: "string \<Rightarrow> 'g \<Rightarrow> (exn + datetime) \<times> 'g"
  random_number :: "string \<Rightarrow> nat \<Rightarrow> 'g \<Rightarrow> (exn + nat) \<times> 'g"
  phone_number :: "string \<Rightarrow> 'g \<Rightarrow> (exn + string) \<times> 'g"
  pystr :: "string \<Rightarrow> nat \<Rightarrow> nat \<Rightarrow> 'g \<Rightarrow> (exn + string) \<times> 'g"
  parser_parse :: "string \<Rightarrow> exn + datetime"
  py_float :: "string \<Rightarrow> exn + 'a"

section \<open>The value fabricator\<close>

text \<open>
  \<open>fabricate\<close> is the body of the outer \<open>try\<close> of \<open>permute_data_format\<close> (lines 40 to
  58): the result or the exception that leaves it, the log lines written, and the next
  state of the generator.
\<close>

definition fabricate_date ::
  "('g, 'a) lib \<Rightarrow> string \<Rightarrow> string \<Rightarrow> 'g \<Rightarrow> (exn + string) \<times> log_entry list \<times> 'g" where
  "fabricate_date L data locale g =
     (let (r, g') =
            (case parser_parse L data of
               Inl e \<Rightarrow> (Inl e, g)
             | Inr date_obj \<Rightarrow>
                 (case date_time_this_decade L locale g of
                    (Inl e, g') \<Rightarrow> (Inl e, g')
                  | (Inr d, g') \<Rightarrow> (Inr (strftime_ymd d), g')))
      in case r of
           Inl e \<Rightarrow>
             if e = ValueError then (Inr data, [Could_not_parse_date data], g')
             else (Inl e, [], g')
         | Inr s \<Rightarrow> (Inr s, [], g'))"

definition fabricate_currency ::
  "('g, 'a) lib \<Rightarrow> string \<Rightarrow> string \<Rightarrow> 'g \<Rightarrow> (exn + string) \<times> log_entry list \<times> 'g" where
  "fabricate_currency L data locale g =
     (case py_float L (str_replace '','' [] (str_replace ''$'' [] data)) of
        Inl e \<Rightarrow> (Inl e, [], g)
      | Inr amount \<Rightarrow>
          (case random_number L locale 3 g of
             (Inl e, g1) \<Rightarrow> (Inl e, [], g1)
           | (Inr a, g1) \<Rightarrow>
               (case random_number L locale 2 g1 of
                  (Inl e, g2) \<Rightarrow> (Inl e, [], g2)
                | (Inr b, g2) \<Rightarrow> (Inr (''$'' @ str_nat a @ ''.'' @ str_nat b), [], g2))))"

definition fabricate ::
  "('g, 'a) lib \<Rightarrow> string \<Rightarrow> string \<Rightarrow> string \<Rightarrow> 'g
     \<Rightarrow> (exn + string) \<times> log_entry list \<times> 'g" where
  "fabricate L data data_type locale g =
     (if data_type = ''date'' then fabricate_date L data locale g
      else if data_type = ''currency'' then fabricate_currency L data locale g
      else if data_type = ''telephone'' then
        (case phone_number L locale g of (r, g') \<Rightarrow> (r, [], g'))
      else
        (case pystr L locale (length data) (length data) g of
           (r, g') \<Rightarrow> (r, [Unknown_data_type data_type], g')))"

text \<open>
  \<open>permute_data_format\<close>: the \<open>Faker\<close> object is built on line 38, before the \<open>try\<close>
  opens on line 39, so an exception of the constructor leaves the function; an exception
  of the body is logged and the original value is returned.
\<close>

definition permute_data_format ::
  "('g, 'a) lib \<Rightarrow> string \<Rightarrow> string \<Rightarrow> string \<Rightarrow> 'g
     \<Rightarrow> (exn + string) \<times> log_entry list \<times> 'g" where
  "permute_data_format L data data_type locale g =
     (case Faker L locale of
        Some e \<Rightarrow> (Inl e, [], g)
      | None \<Rightarrow>
          (case fabricate L data data_type locale g of
             (Inl e, lg, g') \<Rightarrow> (Inr data, lg @ [Error_permuting e], g')
           | (Inr r, lg, g') \<Rightarrow> (Inr r, lg, g')))"

section \<open>The row pipeline\<close>

text \<open>
  A CSV file is modelled by its parsed content, a list of rows, each a list of fields; the
  quoting of fields and the line ends are not modelled. The reader delivers the rows of
  the input file one by one; \<open>writerow\<close> appends a row to the output, or raises: whether
  it does is a parameter that may depend on the row and on how many times \<open>writerow\<close> was
  called before, so that a failure may last or pass.
\<close>

type_synonym row = "string list"

type_synonym files = "string \<rightharpoonup> row list"

record os =
  open_write_error :: "string \<Rightarrow> exn option"
  write_error :: "nat \<Rightarrow> row \<Rightarrow> exn option"

record args =
  csv_file :: string
  column_name :: string
  output_file :: "string option"
  locale_name :: string

definition output_path :: "args \<Rightarrow> string" where
  \<comment> \<open>line 100: \<^verbatim>\<open>args.output_file or csv_file.replace(".csv", "_masked.csv")\<close>\<close>
  "output_path a =
     (case output_file a of
        None \<Rightarrow> str_replace ''.csv'' ''_masked.csv'' (csv_file a)
      | Some p \<Rightarrow> if p = [] then str_replace ''.csv'' ''_masked.csv'' (csv_file a) else p)"

fun index_of :: "'a list \<Rightarrow> 'a \<Rightarrow> nat option" where
  \<comment> \<open>\<open>list.index\<close>: the first position of the value; \<open>None\<close> is its \<open>ValueError\<close>\<close>
  "index_of [] x = None"
| "index_of (y # ys) x = (if y = x then Some 0 else map_option Suc (index_of ys x))"

record 'g run_state =
  written :: "row list"
  writes :: nat
  rng :: 'g
  logs :: "log_entry list"

definition writerow :: "os \<Rightarrow> row \<Rightarrow> 'g run_state \<Rightarrow> exn option \<times> 'g run_state" where
  "writerow W r st =
     (case write_error W (writes st) r of
        Some e \<Rightarrow> (Some e, st\<lparr>writes := Suc (writes st)\<rparr>)
      | None \<Rightarrow> (None, st\<lparr>written := written st @ [r], writes := Suc (writes st)\<rparr>))"

text \<open>
  The two handlers of the loop body (lines 126 to 131) log and write the list \<open>row\<close> as it
  is when the exception arrives; an exception of that write is not handled in the loop.
\<close>

definition row_handler :: "os \<Rightarrow> exn \<Rightarrow> row \<Rightarrow> 'g run_state \<Rightarrow> exn option \<times> 'g run_state" where
  "row_handler W e r st =
     writerow W r
       (st\<lparr>logs := logs st @ [if e = IndexError then Row_fewer_columns
                                else Error_processing_row e]\<rparr>)"

definition process_row ::
  "('g, 'a) lib \<Rightarrow> os \<Rightarrow> string \<Rightarrow> nat \<Rightarrow> row \<Rightarrow> 'g run_state \<Rightarrow> exn option \<times> 'g run_state" where
  "process_row L W locale column_index r st =
     (if length r \<le> column_index then row_handler W IndexError r st
      else
        let original_data = r ! column_index;
            data_type = detect_data_type (Str original_data);
            (res, lg, g') = permute_data_format L original_data data_type locale (rng st);
            st1 = st\<lparr>rng := g', logs := logs st @ lg\<rparr>
        in case res of
             Inl e \<Rightarrow> row_handler W e r st1
           | Inr masked_data \<Rightarrow>
               (let r' = r[column_index := masked_data]
                in case writerow W r' st1 of
                     (None, st2) \<Rightarrow> (None, st2)
                   | (Some e, st2) \<Rightarrow> row_handler W e r' st2))"

fun process_rows ::
  "('g, 'a) lib \<Rightarrow> os \<Rightarrow> string \<Rightarrow> nat \<Rightarrow> row list \<Rightarrow> 'g run_state
     \<Rightarrow> exn option \<times> 'g run_state" where
  "process_rows L W locale column_index [] st = (None, st)"
| "process_rows L W locale column_index (r # rs) st =
     (case process_row L W locale column_index r st of
        (Some e, st') \<Rightarrow> (Some e, st')
      | (None, st') \<Rightarrow> process_rows L W locale column_index rs st')"

record 'g outcome =
  exit_code :: nat
  files_after :: files
  logged :: "log_entry list"
  rng_after :: 'g

definition top_level_handler :: "string \<Rightarrow> exn \<Rightarrow> log_entry" where
  \<comment> \<open>lines 134 to 139; both handlers end in \<^verbatim>\<open>sys.exit(1)\<close>\<close>
  "top_level_handler csv e = (if e = FileNotFoundError then File_not_found csv
                              else Unexpected_error e)"

text \<open>
  \<open>main\<close> after the arguments are parsed. Opening the output for writing empties it before
  the reader takes its first row, which matters when both paths are the same. Leaving the
  \<open>with\<close> block closes the output with the rows written so far.
\<close>

definition main :: "('g, 'a) lib \<Rightarrow> os \<Rightarrow> args \<Rightarrow> files \<Rightarrow> 'g \<Rightarrow> 'g outcome" where
  "main L W a fs g =
     (let csv = csv_file a; out = output_path a
      in case fs csv of
           None \<Rightarrow>
             \<lparr>exit_code = 1, files_after = fs, logged = [File_not_found csv], rng_after = g\<rparr>
         | Some _ \<Rightarrow>
             (case open_write_error W out of
                Some e \<Rightarrow>
                  \<lparr>exit_code = 1, files_after = fs, logged = [top_level_handler csv e],
                   rng_after = g\<rparr>
              | None \<Rightarrow>
                  (let fs1 = fs(out \<mapsto> []);
                       st0 = \<lparr>written = [], writes = 0, rng = g, logs = []\<rparr>
                   in case the (fs1 csv) of
                        [] \<Rightarrow>
                          \<lparr>exit_code = 1, files_after = fs1,
                           logged = [top_level_handler csv StopIteration], rng_after = g\<rparr>
                      | header # rows \<Rightarrow>
                          (case writerow W header st0 of
                             (Some e, st1) \<Rightarrow>
                               \<lparr>exit_code = 1, files_after = fs1(out \<mapsto> written st1),
                                logged = logs st1 @ [top_level_handler csv e],
                                rng_after = rng st1\<rparr>
                           | (None, st1) \<Rightarrow>
                               (case index_of header (column_name a) of
                                  None \<Rightarrow>
                                    \<lparr>exit_code = 1, files_after = fs1(out \<mapsto> written st1),
                                     logged = logs st1 @ [Column_not_found (column_name a)],
                                     rng_after = rng st1\<rparr>
                                | Some column_index \<Rightarrow>
                                    (case process_rows L W (locale_name a) column_index rows st1 of
                                       (Some e, st2) \<Rightarrow>
                                         \<lparr>exit_code = 1, files_after = fs1(out \<mapsto> written st2),
                                          logged = logs st2 @ [top_level_handler csv e],
                                          rng_after = rng st2\<rparr>
                                     | (None, st2) \<Rightarrow>
                                         \<lparr>exit_code = 0, files_after = fs1(out \<mapsto> written st2),
                                          logged = logs st2 @ [Masking_completed out],
                                          rng_after = rng st2\<rparr>))))))"

section \<open>The words of the specification\<close>


text \<open>
  The specification describes what each test of the detector accepts in words. These
  sets say it directly, without patterns: a run of digits of a given length, literal
  characters, optional parts. A value has a shape when one of its prefixes is in the set.
\<close>

definition digits :: "nat \<Rightarrow> string set" where
  "digits n = {w. length w = n \<and> list_all is_digit w}"

definition optional :: "string set \<Rightarrow> string set" where
  "optional A = insert [] A"

definition separators :: "string set" where
  "separators = {[c] | c. c = CHR ''-'' \<or> c = CHR ''.'' \<or> is_space c}"

definition iso_date_shape :: "string set" where
  \<comment> \<open>\<open>YYYY-MM-DD\<close>\<close>
  "iso_date_shape =
     conc (digits 4) (conc {''-''} (conc (digits 2) (conc {''-''} (digits 2))))"

definition us_date_shape :: "string set" where
  \<comment> \<open>\<open>MM/DD/YYYY\<close>\<close>
  "us_date_shape =
     conc (digits 2) (conc {''/''} (conc (digits 2) (conc {''/''} (digits 4))))"

definition currency_shape :: "string set" where
  \<comment> \<open>a leading \<open>$\<close>, digits, optional groups of thousands, optional cents\<close>
  "currency_shape =
     conc {''$''}
       (conc {w. w \<noteq> [] \<and> list_all is_digit w}
          (conc (star (conc {'',''} (digits 3))) (optional (conc {''.''} (digits 2)))))"

definition telephone_shape :: "string set" where
  \<comment> \<open>optional country code, optional parentheses, groups of 3, 3 and 4 digits\<close>
  "telephone_shape =
     conc (optional (conc {''+''} (digits 1 \<union> digits 2 \<union> digits 3)))
       (conc (optional {[c] | c. is_space c})
          (conc (optional {''(''})
             (conc (digits 3)
                (conc (optional {'')''})
                   (conc (optional separators)
                      (conc (digits 3) (conc (optional separators) (digits 4))))))))"


definition is_letter :: "char \<Rightarrow> bool" where
  "is_letter c =
     (let n = (of_char c :: nat) in (65 \<le> n \<and> n \<le> 90) \<or> (97 \<le> n \<and> n \<le> 122))"


definition pystr_documented :: "('g, 'a) lib \<Rightarrow> bool" where
  "pystr_documented L =
     (\<forall>loc lo hi g s g'. pystr L loc lo hi g = (Inr s, g') \<longrightarrow>
        lo \<le> length s \<and> length s \<le> hi \<and> list_all is_letter s)"

section \<open>A concrete environment\<close>

text \<open>
  An instance of the libraries and of the operating system, on which the model runs: a
  counter stands for the random generator, the constructor knows two locales, the date
  parser accepts the two date formats of the detector and \<open>float\<close> accepts digits with at
  most one point.
\<close>

definition demo_letter :: "nat \<Rightarrow> char" where
  "demo_letter n = ''ABCDEFGHIJKLMNOPQRSTUVWXYZabcdefghijklmnopqrstuvwxyz'' ! (n mod 52)"

definition demo_float :: "string \<Rightarrow> exn + nat" where
  "demo_float s =
     (let t = strip s
      in if t \<noteq> [] \<and> list_all (\<lambda>c. is_digit c \<or> c = CHR ''.'') t \<and>
            length (filter (\<lambda>c. c = CHR ''.'') t) \<le> 1 \<and> t \<noteq> ''.''
         then Inr (length t) else Inl ValueError)"

definition demo_parse :: "string \<Rightarrow> exn + datetime" where
  "demo_parse s =
     (let t = strip s
      in if length t = 10 \<and> (re_match pat_iso_date t \<or> re_match pat_us_date t)
         then Inr \<lparr>year = 2000, month = 1, day = 1\<rparr> else Inl ValueError)"

definition demo_lib :: "(nat, nat) lib" where
  "demo_lib =
     \<lparr>Faker = (\<lambda>loc. if loc = ''en_US'' \<or> loc = ''fr_FR'' then None else Some AttributeError),
      date_time_this_decade =
        (\<lambda>loc g. (Inr \<lparr>year = 2024, month = 1 + g mod 12, day = 1 + g mod 28\<rparr>, Suc g)),
      random_number = (\<lambda>loc d g. (Inr (g mod 10 ^ d), Suc g)),
      phone_number = (\<lambda>loc g. (Inr ''555-0100'', Suc g)),
      pystr =
        (\<lambda>loc lo hi g. if hi < lo then (Inl ValueError, g)
                        else (Inr (map (\<lambda>i. demo_letter (g + i)) [0..<lo]), Suc g)),
      parser_parse = demo_parse,
      py_float = demo_float\<rparr>"

definition demo_os :: os where
  "demo_os = \<lparr>open_write_error = (\<lambda>p. None), write_error = (\<lambda>k r. None)\<rparr>"

text \<open>A disk that is full after \<open>n\<close> calls of \<open>writerow\<close>: every later call raises.\<close>

definition full_after :: "nat \<Rightarrow> os" where
  "full_after n =
     \<lparr>open_write_error = (\<lambda>p. None),
      write_error = (\<lambda>k r. if n \<le> k then Some OSError else None)\<rparr>"

text \<open>A write that raises at the call number \<open>n\<close> of \<open>writerow\<close> and at no other call.\<close>

definition fails_once :: "nat \<Rightarrow> os" where
  "fails_once n =
     \<lparr>open_write_error = (\<lambda>p. None),
      write_error = (\<lambda>k r. if k = n then Some OSError else None)\<rparr>"

definition demo_rows :: "row list" where
  "demo_rows =
     [[''id'', ''phone'', ''note''],
      [''1'', ''555-123-4567'', ''a''],
      [''2''],
      [''3'', ''n/a'', ''b'']]"

definition demo_files :: files where
  "demo_files = [''data.csv'' \<mapsto> demo_rows]"

text \<open>The state of a run after the header of the concrete file is written.\<close>

definition demo_state :: "nat run_state" where
  "demo_state = \<lparr>written = [[''id'', ''phone'', ''note'']], writes = 1, rng = 7, logs = []\<rparr>"

definition demo_args :: args where
  "demo_args =
     \<lparr>csv_file = ''data.csv'', column_name = ''phone'', output_file = None,
      locale_name = ''en_US''\<rparr>"

section \<open>Properties of the string operations\<close>

lemma dropWhile_unchanged: "xs = [] \<or> \<not> P (hd xs) \<Longrightarrow> dropWhile P xs = xs"
  by (cases xs) auto

lemma rstrip_ends: "rstrip s = [] \<or> \<not> is_space (last (rstrip s))"
  unfolding rstrip_def
  by (metis hd_dropWhile last_rev rev_is_Nil_conv rev_rev_ident)

lemma lstrip_starts: "lstrip s = [] \<or> \<not> is_space (hd (lstrip s))"
  unfolding lstrip_def by (metis hd_dropWhile)

lemma lstrip_last: "lstrip s \<noteq> [] \<Longrightarrow> last (lstrip s) = last s"
  unfolding lstrip_def
  by (metis dropWhile_eq_Nil_conv last_appendR takeWhile_dropWhile_id)

lemma strip_ends:
  "strip s = [] \<or> (\<not> is_space (hd (strip s)) \<and> \<not> is_space (last (strip s)))"
  unfolding strip_def
  using lstrip_starts [of "rstrip s"] lstrip_last [of "rstrip s"] rstrip_ends [of s]
  by (metis lstrip_def dropWhile.simps(1))

lemma strip_fixed:
  assumes "s = [] \<or> (\<not> is_space (hd s) \<and> \<not> is_space (last s))"
  shows "strip s = s"
proof (cases "s = []")
  case True
  then show ?thesis by (simp add: strip_def lstrip_def rstrip_def)
next
  case False
  with assms have h: "\<not> is_space (hd s)" and l: "\<not> is_space (last s)" by auto
  from False l have "dropWhile is_space (rev s) = rev s"
    by (intro dropWhile_unchanged) (simp add: hd_rev)
  then have "rstrip s = s" by (simp add: rstrip_def)
  moreover from False h have "lstrip s = s"
    unfolding lstrip_def by (intro dropWhile_unchanged) simp
  ultimately show ?thesis by (simp add: strip_def)
qed

lemma strip_idem: "strip (strip s) = strip s"
  by (rule strip_fixed) (rule strip_ends)

lemma str_replace_absent:
  "old \<noteq> [] \<Longrightarrow> \<not> sublist old s \<Longrightarrow> str_replace old new s = s"
proof (induction s)
  case Nil
  then show ?case by simp
next
  case (Cons c cs)
  from Cons.prems have "\<not> prefix old (c # cs)"
    using prefix_imp_sublist by blast
  moreover from Cons.prems have "\<not> sublist old cs"
    by (auto simp: sublist_Cons_right)
  ultimately show ?case
    using Cons by simp
qed

lemma str_replace_skip:
  "old \<noteq> [] \<Longrightarrow> \<not> prefix old (c # cs) \<Longrightarrow>
   str_replace old new (c # cs) = c # str_replace old new cs"
  by simp

lemma str_replace_hit:
  "old \<noteq> [] \<Longrightarrow> str_replace old new (old @ q) = new @ str_replace old new q"
  by (cases old) simp_all

text \<open>
  An occurrence of \<open>.csv\<close> cannot begin inside a text free of \<open>.csv\<close> and end in a
  following \<open>.csv\<close>: its first character is the only point it has.
\<close>

lemma csv_no_straddle:
  assumes "\<not> sublist ''.csv'' (c # p)"
  shows "\<not> prefix ''.csv'' (c # p @ ''.csv'' @ q)"
proof
  assume pre: "prefix ''.csv'' (c # p @ ''.csv'' @ q)"
  from assms have np: "\<not> prefix ''.csv'' (c # p)"
    using prefix_imp_sublist by blast
  show False
  proof (cases p)
    case Nil
    with pre show False by simp
  next
    case (Cons x1 p1)
    note p = this
    show False
    proof (cases p1)
      case Nil
      with p pre show False by simp
    next
      case (Cons x2 p2)
      note p1 = this
      show False
      proof (cases p2)
        case Nil
        with p p1 pre show False by simp
      next
        case (Cons x3 p3)
        with p p1 pre np show False by simp
      qed
    qed
  qed
qed

lemma str_replace_csv_first:
  "\<not> sublist ''.csv'' p \<Longrightarrow>
   str_replace ''.csv'' ''_masked.csv'' (p @ ''.csv'' @ q)
     = p @ ''_masked.csv'' @ str_replace ''.csv'' ''_masked.csv'' q"
proof (induction p)
  case Nil
  show ?case
    using str_replace_hit [of "''.csv''" "''_masked.csv''" q] by simp
next
  case (Cons c p)
  from Cons.prems have "\<not> sublist ''.csv'' p"
    by (auto simp: sublist_Cons_right)
  then have IH: "str_replace ''.csv'' ''_masked.csv'' (p @ ''.csv'' @ q)
     = p @ ''_masked.csv'' @ str_replace ''.csv'' ''_masked.csv'' q"
    by (rule Cons.IH)
  have np: "\<not> prefix ''.csv'' (c # (p @ ''.csv'' @ q))"
    using csv_no_straddle [OF Cons.prems, of q] by simp
  have "str_replace ''.csv'' ''_masked.csv'' (c # (p @ ''.csv'' @ q))
          = c # str_replace ''.csv'' ''_masked.csv'' (p @ ''.csv'' @ q)"
    by (rule str_replace_skip [OF _ np]) simp
  with IH show ?case
    by (simp only: append_Cons)
qed

section \<open>The matcher decides the prefix language\<close>

lemma nullable_iff: "nullable r \<longleftrightarrow> [] \<in> lang r"
  by (induction r) (auto simp: conc_def intro: star.intros)

lemma star_Cons_iff:
  "c # w \<in> star A \<longleftrightarrow> (\<exists>u v. w = u @ v \<and> c # u \<in> A \<and> v \<in> star A)"
proof
  assume "c # w \<in> star A"
  then show "\<exists>u v. w = u @ v \<and> c # u \<in> A \<and> v \<in> star A"
  proof (induction "c # w" rule: star.induct)
    case (star_App u v)
    then show ?case
      by (cases u) auto
  qed
next
  assume "\<exists>u v. w = u @ v \<and> c # u \<in> A \<and> v \<in> star A"
  then obtain u v where "w = u @ v" "c # u \<in> A" "v \<in> star A" by blast
  then show "c # w \<in> star A"
    using star.star_App [of "c # u" A v] by simp
qed

lemma lang_deriv: "w \<in> lang (deriv c r) \<longleftrightarrow> c # w \<in> lang r"
proof (induction r arbitrary: w)
  case (Seq a b)
  then show ?case
    by (cases "nullable a") (auto simp: conc_def nullable_iff Cons_eq_append_conv)
next
  case (Star a)
  then show ?case
    by (auto simp: conc_def star_Cons_iff)
qed auto

lemma re_match_iff: "re_match r s \<longleftrightarrow> has_prefix_in (lang r) s"
proof (induction s arbitrary: r)
  case Nil
  then show ?case by (simp add: has_prefix_in_def nullable_iff)
next
  case (Cons c cs)
  have "has_prefix_in (lang r) (c # cs)
          \<longleftrightarrow> [] \<in> lang r \<or> has_prefix_in (lang (deriv c r)) cs"
    unfolding has_prefix_in_def
    by (auto simp: lang_deriv Cons_eq_append_conv)
  then show ?case
    using Cons by (simp add: nullable_iff)
qed

section \<open>Properties of the fabricator\<close>





lemma permute_returns:
  "Faker L loc = None \<Longrightarrow> \<exists>r lg g'. permute_data_format L d t loc g = (Inr r, lg, g')"
  by (auto simp: permute_data_format_def split: prod.splits sum.splits)

lemma permute_fallback:
  "Faker L loc = None \<Longrightarrow> fabricate L d t loc g = (Inl e, lg, g') \<Longrightarrow>
   permute_data_format L d t loc g = (Inr d, lg @ [Error_permuting e], g')"
  by (simp add: permute_data_format_def)

lemma permute_raises_iff:
  "(\<exists>e lg g'. permute_data_format L d t loc g = (Inl e, lg, g')) \<longleftrightarrow> Faker L loc \<noteq> None"
  by (auto simp: permute_data_format_def split: prod.splits sum.splits option.splits)

lemma permute_unparsed_date:
  "Faker L loc = None \<Longrightarrow> parser_parse L d = Inl ValueError \<Longrightarrow>
   permute_data_format L d ''date'' loc g = (Inr d, [Could_not_parse_date d], g)"
  by (simp add: permute_data_format_def fabricate_def fabricate_date_def)


lemma is_letter_demo_letter: "is_letter (demo_letter n)"
proof -
  have "list_all is_letter ''ABCDEFGHIJKLMNOPQRSTUVWXYZabcdefghijklmnopqrstuvwxyz''"
    by (simp add: is_letter_def)
  moreover have "n mod 52 < 52" by simp
  ultimately show ?thesis
    unfolding demo_letter_def by (simp only: list_all_length length_Cons list.size)
qed

lemma demo_lib_pystr_documented: "pystr_documented demo_lib"
  by (auto simp: pystr_documented_def demo_lib_def list_all_iff is_letter_demo_letter
           split: if_splits)

section \<open>Properties of the row pipeline\<close>

lemma index_of_None_iff: "index_of xs x = None \<longleftrightarrow> x \<notin> set xs"
  by (induction xs) auto

lemma index_of_Some: "index_of xs x = Some i \<Longrightarrow> i < length xs \<and> xs ! i = x"
  by (induction xs arbitrary: i) (auto split: if_splits)



lemma writerow_cases:
  "writerow W r st = (res, st') \<Longrightarrow>
   rng st' = rng st \<and> logs st' = logs st \<and>
   (case res of None \<Rightarrow> written st' = written st @ [r] | Some e \<Rightarrow> written st' = written st)"
  by (auto simp: writerow_def split: option.splits)




lemma row_handler_ok:
  "write_error W (writes st) r = None \<Longrightarrow>
   row_handler W e r st =
     (None, st\<lparr>logs := logs st @ [if e = IndexError then Row_fewer_columns
                                    else Error_processing_row e],
              written := written st @ [r], writes := Suc (writes st)\<rparr>)"
  by (simp add: row_handler_def writerow_def)

lemma row_handler_escape:
  "row_handler W e0 r st = (Some e, st') \<Longrightarrow>
   write_error W (writes st) r = Some e \<and> written st' = written st"
  by (auto simp: row_handler_def writerow_def split: option.splits)

lemma process_row_escape:
  assumes "process_row L W loc k r st = (Some e, st')"
  shows "written st' = written st \<and> (\<exists>n r'. write_error W n r' = Some e)"
proof (cases "length r \<le> k")
  case True
  with assms have "row_handler W IndexError r st = (Some e, st')"
    by (simp add: process_row_def)
  from row_handler_escape [OF this] show ?thesis by blast
next
  case False
  obtain pr lg g' where p:
    "permute_data_format L (r ! k) (detect_data_type (Str (r ! k))) loc (rng st) = (pr, lg, g')"
    by (metis prod_cases3)
  define st1 where "st1 = st\<lparr>rng := g', logs := logs st @ lg\<rparr>"
  have w1: "written st1 = written st" by (simp add: st1_def)
  show ?thesis
  proof (cases pr)
    case (Inl e0)
    with assms False p have "row_handler W e0 r st1 = (Some e, st')"
      by (simp add: process_row_def st1_def)
    from row_handler_escape [OF this] w1 show ?thesis by auto
  next
    case (Inr m)
    obtain wr st2 where w: "writerow W (r[k := m]) st1 = (wr, st2)"
      by (cases "writerow W (r[k := m]) st1")
    show ?thesis
    proof (cases wr)
      case None
      with assms False p Inr w show ?thesis
        by (simp add: process_row_def st1_def)
    next
      case (Some e1)
      with assms False p Inr w have h: "row_handler W e1 (r[k := m]) st2 = (Some e, st')"
        by (simp add: process_row_def st1_def)
      from writerow_cases [OF w] Some w1 have "written st2 = written st" by simp
      with row_handler_escape [OF h] show ?thesis by auto
    qed
  qed
qed

section \<open>The patterns denote the shapes of the specification\<close>

lemma conc_Eps: "conc A {[]} = A"
  by (auto simp: conc_def)

lemma conc_Eps_left: "conc {[]} A = A"
  by (auto simp: conc_def)

lemma conc_Un_right: "conc A (B \<union> C) = conc A B \<union> conc A C"
  by (auto simp: conc_def)

lemma conc_Un_left: "conc (A \<union> B) C = conc A C \<union> conc B C"
  by (auto simp: conc_def)

lemma optional_Un: "optional A = {[]} \<union> A"
  by (simp add: optional_def)

lemma conc_atoms: "w \<in> conc {[c] | c. P c} B \<longleftrightarrow> (\<exists>c v. w = c # v \<and> P c \<and> v \<in> B)"
proof
  assume "w \<in> conc {[c] | c. P c} B"
  then show "\<exists>c v. w = c # v \<and> P c \<and> v \<in> B"
    by (auto simp: conc_def)
next
  assume "\<exists>c v. w = c # v \<and> P c \<and> v \<in> B"
  then obtain c v where "w = [c] @ v" "P c" "v \<in> B" by auto
  then show "w \<in> conc {[c] | c. P c} B"
    unfolding conc_def by blast
qed

lemma digits_0: "digits 0 = {[]}"
  by (auto simp: digits_def)

lemma digits_Suc: "digits (Suc n) = conc {[c] | c. is_digit c} (digits n)"
proof (intro set_eqI)
  fix w
  have "w \<in> digits (Suc n) \<longleftrightarrow> (\<exists>c v. w = c # v \<and> is_digit c \<and> v \<in> digits n)"
    by (cases w) (auto simp: digits_def)
  then show "w \<in> digits (Suc n) \<longleftrightarrow> w \<in> conc {[c] | c. is_digit c} (digits n)"
    by (simp only: conc_atoms)
qed

lemma lang_rep_digit: "lang (rep n digit) = digits n"
  by (induction n) (simp_all add: digits_0 digits_Suc digit_def)

lemma lang_lit: "lang (lit c) = {[c]}"
  by (auto simp: lit_def)

lemma lang_opt: "lang (opt r) = optional (lang r)"
  by (auto simp: opt_def optional_def)

lemma star_digits: "star {[c] | c. is_digit c} = {w. list_all is_digit w}"
proof (intro set_eqI iffI)
  fix w assume "w \<in> star {[c] | c. is_digit c}"
  then show "w \<in> {w. list_all is_digit w}"
    by (induction rule: star.induct) auto
next
  fix w assume "w \<in> {w. list_all is_digit w}"
  then have "list_all is_digit w" by simp
  then show "w \<in> star {[c] | c. is_digit c}"
  proof (induction w)
    case Nil
    show ?case by (rule star.star_Nil)
  next
    case (Cons c w)
    then have "[c] \<in> {[c] | c. is_digit c}" "w \<in> star {[c] | c. is_digit c}" by auto
    then have "[c] @ w \<in> star {[c] | c. is_digit c}" by (rule star.star_App)
    then show ?case by simp
  qed
qed

lemma lang_plus_digit: "lang (plus digit) = {w. w \<noteq> [] \<and> list_all is_digit w}"
proof (intro set_eqI)
  fix w
  have "w \<in> lang (plus digit) \<longleftrightarrow> w \<in> conc {[c] | c. is_digit c} {w. list_all is_digit w}"
    by (simp add: plus_def digit_def star_digits)
  also have "\<dots> \<longleftrightarrow> (\<exists>c v. w = c # v \<and> is_digit c \<and> v \<in> {w. list_all is_digit w})"
    by (rule conc_atoms)
  also have "\<dots> \<longleftrightarrow> w \<in> {w. w \<noteq> [] \<and> list_all is_digit w}"
    by (cases w) auto
  finally show "w \<in> lang (plus digit) \<longleftrightarrow> w \<in> {w. w \<noteq> [] \<and> list_all is_digit w}" .
qed

lemma lang_rep_range_digit: "lang (rep_range 1 3 digit) = digits 1 \<union> digits 2 \<union> digits 3"
proof -
  let ?D = "{[c] | c. is_digit c}"
  have r: "rep_range 1 3 digit = Seq (rep 1 digit) (Seq (opt digit) (Seq (opt digit) Eps))"
    by (simp add: rep_range_def eval_nat_numeral)
  have d1: "digits 1 = ?D"
    using digits_Suc [of 0] by (simp add: digits_0 conc_Eps)
  have "digits 2 = digits (Suc 1)" by (simp add: eval_nat_numeral)
  then have d2: "digits 2 = conc ?D ?D"
    by (simp only: digits_Suc d1)
  have "digits 3 = digits (Suc 2)" by (simp add: eval_nat_numeral)
  then have d3: "digits 3 = conc ?D (conc ?D ?D)"
    by (simp only: digits_Suc d2)
  have "lang (rep_range 1 3 digit) = conc (lang (rep 1 digit)) (conc (optional ?D) (optional ?D))"
    unfolding r by (simp add: lang_opt conc_Eps digit_def)
  also have "lang (rep 1 digit) = ?D"
    by (simp only: lang_rep_digit d1)
  also have "conc ?D (conc (optional ?D) (optional ?D)) = ?D \<union> conc ?D ?D \<union> conc ?D (conc ?D ?D)"
    unfolding optional_Un conc_Un_right conc_Un_left conc_Eps conc_Eps_left by blast
  finally show ?thesis
    by (simp only: d1 d2 d3)
qed

lemma lang_pat_iso_date: "lang pat_iso_date = iso_date_shape"
  by (simp add: pat_iso_date_def iso_date_shape_def lang_rep_digit lang_lit conc_Eps)

lemma lang_pat_us_date: "lang pat_us_date = us_date_shape"
  by (simp add: pat_us_date_def us_date_shape_def lang_rep_digit lang_lit conc_Eps)

lemma lang_pat_currency: "lang pat_currency = currency_shape"
  by (simp add: pat_currency_def currency_shape_def lang_rep_digit lang_lit lang_opt
      lang_plus_digit conc_Eps)

lemma lang_sep: "lang sep = separators"
  by (auto simp: sep_def separators_def)

lemma lang_pat_telephone: "lang pat_telephone = telephone_shape"
  by (simp only: pat_telephone_def telephone_shape_def seqs.simps lang.simps lang_rep_digit
      lang_lit lang_opt lang_rep_range_digit lang_sep conc_Eps)


section \<open>The cascade of the detector\<close>

lemma is_digit_not_space: "is_digit c \<Longrightarrow> \<not> is_space c"
  by (auto simp: is_digit_def is_space_def Let_def)

lemma rstrip_append:
  assumes "m \<noteq> []" and "\<not> is_space (last m)"
  shows "rstrip (m @ g) = m @ rstrip g"
proof -
  from assms have "dropWhile is_space (rev m) = rev m"
    by (intro dropWhile_unchanged) (simp add: hd_rev)
  then show ?thesis
    by (simp add: rstrip_def dropWhile_append)
qed

lemma strip_append:
  assumes "m \<noteq> []" and "\<not> is_space (hd m)" and "\<not> is_space (last m)"
  shows "strip (m @ g) = m @ rstrip g"
proof -
  from assms(1,2) have "dropWhile is_space (m @ rstrip g) = m @ rstrip g"
    by (intro dropWhile_unchanged) simp
  with assms show ?thesis
    by (simp add: strip_def lstrip_def rstrip_append)
qed

lemma conc_first:
  assumes "\<And>u. u \<in> A \<Longrightarrow> u \<noteq> [] \<and> P (hd u)" and "w \<in> conc A B"
  shows "w \<noteq> [] \<and> P (hd w)"
  using assms by (auto simp: conc_def)

lemma conc_last:
  assumes "\<And>v. v \<in> B \<Longrightarrow> v \<noteq> [] \<and> P (last v)" and "w \<in> conc A B"
  shows "w \<noteq> [] \<and> P (last w)"
  using assms by (auto simp: conc_def)

lemma digits_first: "0 < n \<Longrightarrow> w \<in> digits n \<Longrightarrow> w \<noteq> [] \<and> is_digit (hd w)"
  by (cases w) (auto simp: digits_def)

lemma digits_last: "0 < n \<Longrightarrow> w \<in> digits n \<Longrightarrow> w \<noteq> [] \<and> is_digit (last w)"
  by (cases w rule: rev_cases) (auto simp: digits_def)

lemma iso_date_first: "w \<in> iso_date_shape \<Longrightarrow> w \<noteq> [] \<and> is_digit (hd w)"
  unfolding iso_date_shape_def by (erule conc_first [rotated]) (rule digits_first, simp_all)

lemma us_date_first: "w \<in> us_date_shape \<Longrightarrow> w \<noteq> [] \<and> is_digit (hd w)"
  unfolding us_date_shape_def by (erule conc_first [rotated]) (rule digits_first, simp_all)

lemma iso_date_last: "w \<in> iso_date_shape \<Longrightarrow> w \<noteq> [] \<and> is_digit (last w)"
  unfolding iso_date_shape_def
  by (erule conc_last [rotated])+ (rule digits_last, simp_all)

lemma us_date_last: "w \<in> us_date_shape \<Longrightarrow> w \<noteq> [] \<and> is_digit (last w)"
  unfolding us_date_shape_def
  by (erule conc_last [rotated])+ (rule digits_last, simp_all)

lemma telephone_last: "w \<in> telephone_shape \<Longrightarrow> w \<noteq> [] \<and> is_digit (last w)"
  unfolding telephone_shape_def
  by (erule conc_last [rotated])+ (rule digits_last, simp_all)

lemma currency_first: "w \<in> currency_shape \<Longrightarrow> w \<noteq> [] \<and> hd w = CHR ''$''"
  unfolding currency_shape_def by (erule conc_first [rotated]) simp

lemma thousands_last:
  "v \<in> star (conc {'',''} (digits 3)) \<Longrightarrow> v = [] \<or> is_digit (last v)"
proof (induction rule: star.induct)
  case star_Nil
  show ?case by simp
next
  case (star_App u v)
  from star_App(1) have "u \<noteq> [] \<and> is_digit (last u)"
    by (rule conc_last [rotated]) (rule digits_last, simp_all)
  with star_App(3) show ?case by (auto simp: last_append)
qed

lemma currency_last: "w \<in> currency_shape \<Longrightarrow> w \<noteq> [] \<and> is_digit (last w)"
proof -
  assume "w \<in> currency_shape"
  then obtain n t c where w: "w = ''$'' @ n @ t @ c"
    and n: "n \<noteq> []" "list_all is_digit n"
    and t: "t \<in> star (conc {'',''} (digits 3))"
    and c: "c \<in> optional (conc {''.''} (digits 2))"
    unfolding currency_shape_def conc_def by blast
  from n have ln: "is_digit (last n)"
    by (simp add: list_all_iff)
  from thousands_last [OF t] have lt: "t = [] \<or> is_digit (last t)" .
  have lc: "c = [] \<or> is_digit (last c)"
  proof (cases "c = []")
    case False
    with c have "c \<in> conc {''.''} (digits 2)" by (simp add: optional_def)
    then have "c \<noteq> [] \<and> is_digit (last c)"
      by (rule conc_last [rotated]) (rule digits_last, simp_all)
    then show ?thesis by simp
  qed simp
  from w n(1) ln lt lc show ?thesis by (auto simp: last_append)
qed

lemma has_prefix_first:
  assumes "has_prefix_in L s" and "\<And>w. w \<in> L \<Longrightarrow> w \<noteq> [] \<and> P (hd w)"
  shows "s \<noteq> [] \<and> P (hd s)"
  using assms unfolding has_prefix_in_def by (metis append_is_Nil_conv hd_append2)

lemma conc_I: "u \<in> A \<Longrightarrow> v \<in> B \<Longrightarrow> u @ v \<in> conc A B"
  unfolding conc_def by blast

lemma has_prefix_in_append: "m \<in> L \<Longrightarrow> has_prefix_in L (m @ g)"
  unfolding has_prefix_in_def by blast

lemma detect_cascade:
  "detect_data_type (Str s) =
     (if strip s = [] then ''unknown''
      else if has_prefix_in iso_date_shape (strip s) then ''date''
      else if has_prefix_in us_date_shape (strip s) then ''date''
      else if has_prefix_in currency_shape (strip s) then ''currency''
      else if has_prefix_in telephone_shape (strip s) then ''telephone''
      else ''unknown'')"
  by (simp add: detect_data_type_def re_match_iff lang_pat_iso_date lang_pat_us_date
      lang_pat_currency lang_pat_telephone)

lemma detect_date_garbage:
  assumes "m \<in> iso_date_shape \<union> us_date_shape"
  shows "detect_data_type (Str (m @ g)) = ''date''"
proof -
  from assms have e: "m \<noteq> [] \<and> is_digit (hd m) \<and> is_digit (last m)"
    using iso_date_first iso_date_last us_date_first us_date_last by blast
  then have st: "strip (m @ g) = m @ rstrip g"
    by (intro strip_append) (simp_all add: is_digit_not_space)
  from assms have "has_prefix_in iso_date_shape (m @ rstrip g) \<or>
                   has_prefix_in us_date_shape (m @ rstrip g)"
    by (auto intro: has_prefix_in_append)
  with e st show ?thesis
    by (auto simp: detect_cascade)
qed

lemma detect_currency_garbage:
  assumes "m \<in> currency_shape"
  shows "detect_data_type (Str (m @ g)) = ''currency''"
proof -
  from assms have e: "m \<noteq> []" "hd m = CHR ''$''" "is_digit (last m)"
    using currency_first currency_last by blast+
  have ns: "\<not> is_space (CHR ''$'')" by (simp add: is_space_def)
  have nd: "\<not> is_digit (CHR ''$'')" by (simp add: is_digit_def)
  from e ns have st: "strip (m @ g) = m @ rstrip g"
    by (intro strip_append) (simp_all add: is_digit_not_space)
  from e have h: "hd (m @ rstrip g) = CHR ''$''" by simp
  have n1: "\<not> has_prefix_in iso_date_shape (m @ rstrip g)"
    using has_prefix_first [of iso_date_shape "m @ rstrip g" is_digit] iso_date_first h nd
    by auto
  have n2: "\<not> has_prefix_in us_date_shape (m @ rstrip g)"
    using has_prefix_first [of us_date_shape "m @ rstrip g" is_digit] us_date_first h nd
    by auto
  from assms have "has_prefix_in currency_shape (m @ rstrip g)"
    by (rule has_prefix_in_append)
  with e st n1 n2 show ?thesis
    by (simp add: detect_cascade)
qed

lemma detect_examples:
  "detect_data_type (Str ''2023-05-01...'') = ''date''"
  "detect_data_type (Str ''05/01/2023'') = ''date''"
  "detect_data_type (Str ''$1,234.56'') = ''currency''"
  "detect_data_type (Str ''+1 (555) 123-4567'') = ''telephone''"
  "detect_data_type (Str []) = ''unknown''"
  by code_simp+

lemma iso_prefix_nth:
  assumes "has_prefix_in iso_date_shape s"
  shows "is_digit (s ! 3) \<and> s ! 4 = CHR ''-''"
proof -
  from assms obtain y r where s: "s = y @ ''-'' @ r" and y: "y \<in> digits 4"
    unfolding has_prefix_in_def iso_date_shape_def conc_def by auto
  from y have l: "length y = 4" and d: "is_digit (y ! 3)"
    by (auto simp: digits_def list_all_length)
  from s l d show ?thesis
    by (simp add: nth_append)
qed

lemma us_prefix_nth:
  assumes "has_prefix_in us_date_shape s"
  shows "s ! 2 = CHR ''/''"
proof -
  from assms obtain y r where s: "s = y @ ''/'' @ r" and y: "y \<in> digits 2"
    unfolding has_prefix_in_def us_date_shape_def conc_def by auto
  from y have l: "length y = 2"
    by (auto simp: digits_def)
  from s l show ?thesis
    by (simp add: nth_append)
qed

lemma digits_3: "w \<in> digits 3 \<Longrightarrow> \<exists>a b c. w = [a, b, c] \<and> is_digit a \<and> is_digit b \<and> is_digit c"
  by (auto simp: digits_def eval_nat_numeral length_Suc_conv)

lemma telephone_parts:
  assumes "m \<in> telephone_shape"
  obtains cc sp lp a rp s1 b t where
    "m = cc @ sp @ lp @ a @ rp @ s1 @ b @ t"
    "cc = [] \<or> hd cc = CHR ''+'' \<and> cc \<noteq> []"
    "sp = [] \<or> is_space (hd sp) \<and> sp \<noteq> []"
    "lp = [] \<or> lp = ''(''"
    "a \<in> digits 3"
    "rp = [] \<or> rp = '')''"
    "s1 = [] \<or> (\<exists>c. s1 = [c] \<and> (c = CHR ''-'' \<or> c = CHR ''.'' \<or> is_space c))"
    "b \<in> digits 3"
proof -
  from assms obtain cc r1 where 1: "m = cc @ r1"
    "cc \<in> optional (conc {''+''} (digits 1 \<union> digits 2 \<union> digits 3))"
    "r1 \<in> conc (optional {[c] | c. is_space c})
          (conc (optional {''(''})
             (conc (digits 3)
                (conc (optional {'')''})
                   (conc (optional separators)
                      (conc (digits 3) (conc (optional separators) (digits 4)))))))"
    unfolding telephone_shape_def conc_def [of "optional (conc {''+''} _)"] by blast
  from 1(3) obtain sp r2 where 2: "r1 = sp @ r2" "sp \<in> optional {[c] | c. is_space c}"
    "r2 \<in> conc (optional {''(''})
             (conc (digits 3)
                (conc (optional {'')''})
                   (conc (optional separators)
                      (conc (digits 3) (conc (optional separators) (digits 4))))))"
    unfolding conc_def [of "optional {[c] | c. is_space c}"] by blast
  from 2(3) obtain lp r3 where 3: "r2 = lp @ r3" "lp \<in> optional {''(''}"
    "r3 \<in> conc (digits 3)
                (conc (optional {'')''})
                   (conc (optional separators)
                      (conc (digits 3) (conc (optional separators) (digits 4)))))"
    unfolding conc_def [of "optional {''(''}"] by blast
  from 3(3) obtain a r4 where 4: "r3 = a @ r4" "a \<in> digits 3"
    "r4 \<in> conc (optional {'')''})
                   (conc (optional separators)
                      (conc (digits 3) (conc (optional separators) (digits 4))))"
    unfolding conc_def [of "digits 3" "conc (optional {'')''}) _"] by blast
  from 4(3) obtain rp r5 where 5: "r4 = rp @ r5" "rp \<in> optional {'')''}"
    "r5 \<in> conc (optional separators)
                      (conc (digits 3) (conc (optional separators) (digits 4)))"
    unfolding conc_def [of "optional {'')''}"] by blast
  from 5(3) obtain s1 r6 where 6: "r5 = s1 @ r6" "s1 \<in> optional separators"
    "r6 \<in> conc (digits 3) (conc (optional separators) (digits 4))"
    unfolding conc_def [of "optional separators" "conc (digits 3) _"] by blast
  from 6(3) obtain b t where 7: "r6 = b @ t" "b \<in> digits 3"
    unfolding conc_def [of "digits 3"] by blast
  have "m = cc @ sp @ lp @ a @ rp @ s1 @ b @ t"
    using 1(1) 2(1) 3(1) 4(1) 5(1) 6(1) 7(1) by simp
  moreover from 1(2) have "cc = [] \<or> hd cc = CHR ''+'' \<and> cc \<noteq> []"
    by (auto simp: optional_def conc_def)
  moreover from 2(2) have "sp = [] \<or> is_space (hd sp) \<and> sp \<noteq> []"
    by (auto simp: optional_def)
  moreover from 3(2) have "lp = [] \<or> lp = ''(''"
    by (auto simp: optional_def)
  moreover from 5(2) have "rp = [] \<or> rp = '')''"
    by (auto simp: optional_def)
  moreover from 6(2)
  have "s1 = [] \<or> (\<exists>c. s1 = [c] \<and> (c = CHR ''-'' \<or> c = CHR ''.'' \<or> is_space c))"
    by (auto simp: optional_def separators_def)
  ultimately show ?thesis
    using that 4(2) 7(2) by blast
qed

lemma digit_facts:
  "\<not> is_digit (CHR ''+'')" "\<not> is_digit (CHR ''('')" "\<not> is_digit (CHR '')'')"
  "\<not> is_digit (CHR ''-'')" "\<not> is_digit (CHR ''.'')" "\<not> is_digit (CHR ''/'')"
  "\<not> is_digit (CHR ''$'')"
  by (simp_all add: is_digit_def)

lemma telephone_excludes:
  assumes m: "m \<in> telephone_shape" and ns: "\<not> is_space (hd m)"
  shows "\<not> has_prefix_in iso_date_shape (m @ x) \<and>
         \<not> has_prefix_in us_date_shape (m @ x) \<and>
         \<not> has_prefix_in currency_shape (m @ x)"
proof -
  from m obtain cc sp lp a rp s1 b t where
    p: "m = cc @ sp @ lp @ a @ rp @ s1 @ b @ t"
    and cc: "cc = [] \<or> hd cc = CHR ''+'' \<and> cc \<noteq> []"
    and sp: "sp = [] \<or> is_space (hd sp) \<and> sp \<noteq> []"
    and lp: "lp = [] \<or> lp = ''(''"
    and a: "a \<in> digits 3"
    and rp: "rp = [] \<or> rp = '')''"
    and s1: "s1 = [] \<or> (\<exists>c. s1 = [c] \<and> (c = CHR ''-'' \<or> c = CHR ''.'' \<or> is_space c))"
    and b: "b \<in> digits 3"
    by (rule telephone_parts)
  from a obtain a1 a2 a3 where a': "a = [a1, a2, a3]" "is_digit a1" "is_digit a2" "is_digit a3"
    using digits_3 by blast
  from b obtain b1 b2 b3 where b': "b = [b1, b2, b3]" "is_digit b1" "is_digit b2" "is_digit b3"
    using digits_3 by blast
  from m have ne: "m \<noteq> []" using telephone_last by blast
  let ?s = "m @ x"
  have hd_s: "hd ?s = hd m" using ne by simp
  show ?thesis
  proof (cases "is_digit (hd m)")
    case False
    have "hd m \<noteq> CHR ''$''"
    proof (cases "cc = []")
      case False
      with cc p show ?thesis by auto
    next
      case True
      note c0 = this
      show ?thesis
      proof (cases "sp = []")
        case False
        with sp p c0 ns show ?thesis by auto
      next
        case True
        with c0 p lp a' show ?thesis
          using digit_facts by auto
      qed
    qed
    with False hd_s show ?thesis
      using has_prefix_first [of iso_date_shape ?s is_digit] iso_date_first
            has_prefix_first [of us_date_shape ?s is_digit] us_date_first
            has_prefix_first [of currency_shape ?s "\<lambda>c. c = CHR ''$''"] currency_first
      by metis
  next
    case True
    have c0: "cc = []"
      using cc p True digit_facts by (cases "cc = []") auto
    have s0: "sp = []"
      using sp p c0 ns by (cases "sp = []") auto
    have l0: "lp = []"
      using lp p c0 s0 True digit_facts by auto
    from p c0 s0 l0 a' b' have s: "?s = a1 # a2 # a3 # rp @ s1 @ b1 # b2 # b3 # t @ x"
      by simp
    have n3: "\<not> has_prefix_in currency_shape ?s"
      using has_prefix_first [of currency_shape ?s "\<lambda>c. c = CHR ''$''"] currency_first
            hd_s True digit_facts(7)
      by metis
    have "?s ! 2 = a3" by (simp add: s)
    with a'(4) digit_facts(6) have n2: "\<not> has_prefix_in us_date_shape ?s"
      using us_prefix_nth [of ?s] by metis
    have "\<not> is_digit (?s ! 3) \<or> ?s ! 4 \<noteq> CHR ''-''"
    proof (cases "rp = []")
      case False
      with rp have "?s ! 3 = CHR '')''" by (simp add: s)
      with digit_facts show ?thesis by simp
    next
      case True
      note r0 = this
      show ?thesis
      proof (cases "s1 = []")
        case True
        with r0 have "?s ! 4 = b2" by (simp add: s)
        with b'(3) digit_facts show ?thesis by metis
      next
        case False
        with s1 obtain c where c: "s1 = [c]" "c = CHR ''-'' \<or> c = CHR ''.'' \<or> is_space c"
          by blast
        with r0 have "?s ! 3 = c" by (simp add: s)
        with c(2) digit_facts is_digit_not_space show ?thesis by metis
      qed
    qed
    then have n1: "\<not> has_prefix_in iso_date_shape ?s"
      using iso_prefix_nth [of ?s] by blast
    from n1 n2 n3 show ?thesis by simp
  qed
qed

lemma detect_telephone_garbage:
  assumes "m \<in> telephone_shape" and "\<not> is_space (hd m)"
  shows "detect_data_type (Str (m @ g)) = ''telephone''"
proof -
  from assms(1) have e: "m \<noteq> []" "is_digit (last m)"
    using telephone_last by blast+
  with assms(2) have st: "strip (m @ g) = m @ rstrip g"
    by (intro strip_append) (simp_all add: is_digit_not_space)
  from assms(1) have "has_prefix_in telephone_shape (m @ rstrip g)"
    by (rule has_prefix_in_append)
  with e st telephone_excludes [OF assms, of "rstrip g"] show ?thesis
    by (simp add: detect_cascade)
qed

lemma strip_leading_space:
  assumes "is_space c" and "r \<noteq> []" and "\<not> is_space (last r)"
  shows "strip (c # r @ g) = strip (r @ g)"
proof -
  from assms(2,3) have "rstrip ((c # r) @ g) = (c # r) @ rstrip g"
    by (intro rstrip_append) simp_all
  moreover from assms(2,3) have "rstrip (r @ g) = r @ rstrip g"
    by (rule rstrip_append)
  ultimately show ?thesis
    using assms(1) by (simp add: strip_def lstrip_def)
qed

lemma telephone_leading_space:
  assumes m: "m \<in> telephone_shape" and sp: "is_space (hd m)"
  shows "\<exists>c r. m = c # r \<and> is_space c \<and> r \<in> telephone_shape \<and> \<not> is_space (hd r)"
proof -
  let ?R = "conc (optional {''(''})
             (conc (digits 3)
                (conc (optional {'')''})
                   (conc (optional separators)
                      (conc (digits 3) (conc (optional separators) (digits 4))))))"
  have R_first: "r \<noteq> [] \<and> \<not> is_space (hd r)" if "r \<in> ?R" for r
  proof -
    from that obtain lp r3 where r: "r = lp @ r3" and lp: "lp \<in> optional {''(''}"
      and r3: "r3 \<in> conc (digits 3)
                (conc (optional {'')''})
                   (conc (optional separators)
                      (conc (digits 3) (conc (optional separators) (digits 4)))))"
      unfolding conc_def [of "optional {''(''}"] by blast
    from r3 have f: "r3 \<noteq> [] \<and> is_digit (hd r3)"
      by (rule conc_first [rotated]) (rule digits_first, simp_all)
    have "\<not> is_space (CHR ''('')" by (simp add: is_space_def)
    with r lp f show ?thesis
      by (auto simp: optional_def is_digit_not_space)
  qed
  from m obtain cc r1 where 1: "m = cc @ r1"
    and cc: "cc \<in> optional (conc {''+''} (digits 1 \<union> digits 2 \<union> digits 3))"
    and r1: "r1 \<in> conc (optional {[c] | c. is_space c}) ?R"
    unfolding telephone_shape_def conc_def [of "optional (conc {''+''} _)"] by blast
  from r1 obtain s r2 where 2: "r1 = s @ r2" and s: "s \<in> optional {[c] | c. is_space c}"
    and r2: "r2 \<in> ?R"
    unfolding conc_def [of "optional {[c] | c. is_space c}"] by blast
  have plus: "\<not> is_space (CHR ''+'')" by (simp add: is_space_def)
  have c0: "cc = []"
  proof (rule ccontr)
    assume "cc \<noteq> []"
    with cc have "hd cc = CHR ''+''" by (auto simp: optional_def conc_def)
    with \<open>cc \<noteq> []\<close> 1 sp plus show False by simp
  qed
  have "s \<noteq> []"
  proof
    assume "s = []"
    with 1 2 c0 have "m = r2" by simp
    with R_first [OF r2] sp show False by simp
  qed
  with s obtain c where c: "s = [c]" "is_space c"
    by (auto simp: optional_def)
  have "[] \<in> optional (conc {''+''} (digits 1 \<union> digits 2 \<union> digits 3))"
       "[] \<in> optional {[c] | c. is_space c}"
    by (simp_all add: optional_def)
  with r2 have "[] @ [] @ r2 \<in> telephone_shape"
    unfolding telephone_shape_def conc_def [of "optional (conc {''+''} _)"]
      conc_def [of "optional {[c] | c. is_space c}"] by blast
  then have "r2 \<in> telephone_shape" by simp
  with 1 2 c0 c R_first [OF r2] show ?thesis by simp
qed

lemma detect_telephone_any:
  assumes "m \<in> telephone_shape"
  shows "detect_data_type (Str (m @ g)) = ''telephone''"
proof (cases "is_space (hd m)")
  case False
  with assms show ?thesis by (rule detect_telephone_garbage)
next
  case True
  with assms obtain c r where m: "m = c # r" and c: "is_space c"
    and r: "r \<in> telephone_shape" "\<not> is_space (hd r)"
    using telephone_leading_space by blast
  from r(1) have e: "r \<noteq> [] \<and> is_digit (last r)" by (rule telephone_last)
  then have "strip (c # r @ g) = strip (r @ g)"
    using c by (intro strip_leading_space) (simp_all add: is_digit_not_space)
  then have "detect_data_type (Str (m @ g)) = detect_data_type (Str (r @ g))"
    using m by (simp add: detect_data_type_def)
  with detect_telephone_garbage [OF r] show ?thesis by simp
qed

section \<open>The concrete environment at work\<close>

lemma demo_detect_phone: "detect_data_type (Str ''555-123-4567'') = ''telephone''"
  by code_simp

lemma demo_detect_na: "detect_data_type (Str ''n/a'') = ''unknown''"
  by code_simp

lemmas demo_eval = main_def process_row_def row_handler_def writerow_def
  permute_data_format_def fabricate_def
  demo_lib_def demo_os_def full_after_def demo_args_def demo_files_def demo_rows_def
  output_path_def top_level_handler_def Let_def demo_detect_phone demo_detect_na demo_letter_def


lemma demo_run_output:
  "files_after (main demo_lib demo_os demo_args demo_files (7::nat)) ''data_masked.csv''
     = Some [[''id'', ''phone'', ''note''], [''1'', ''555-0100'', ''a''], [''2''],
             [''3'', ''IJK'', ''b'']]"
  by (simp add: demo_eval)

section \<open>The default output path\<close>

text \<open>
  C10. An input path in which \<open>.csv\<close> does not occur is its own default output path. The
  program then opens one file for reading and for writing: when the file exists and opens,
  the run leaves it empty and exits with code 1.
\<close>

theorem default_output_path_without_csv:
  "\<not> sublist ''.csv'' (csv_file a) \<Longrightarrow> output_file a = None \<Longrightarrow>
   output_path a = csv_file a \<and>
   (fs (csv_file a) \<noteq> None \<and> open_write_error W (csv_file a) = None \<longrightarrow>
      exit_code (main L W a fs g) = 1 \<and> files_after (main L W a fs g) (csv_file a) = Some [])"
proof (intro conjI impI)
  assume a: "\<not> sublist ''.csv'' (csv_file a)" "output_file a = None"
  then show p: "output_path a = csv_file a"
    by (simp add: output_path_def str_replace_absent)
  assume "fs (csv_file a) \<noteq> None \<and> open_write_error W (csv_file a) = None"
  with p show "exit_code (main L W a fs g) = 1"
    by (auto simp: main_def Let_def)
  assume "fs (csv_file a) \<noteq> None \<and> open_write_error W (csv_file a) = None"
  with p show "files_after (main L W a fs g) (csv_file a) = Some []"
    by (auto simp: main_def Let_def)
qed

theorem default_output_path_without_csv_witness:
  "\<not> sublist ''.csv'' ''data'' \<and>
   output_path (demo_args\<lparr>csv_file := ''data''\<rparr>) = ''data'' \<and>
   exit_code (main demo_lib demo_os (demo_args\<lparr>csv_file := ''data''\<rparr>)
                [''data'' \<mapsto> demo_rows] (7::nat)) = 1 \<and>
   files_after (main demo_lib demo_os (demo_args\<lparr>csv_file := ''data''\<rparr>)
                  [''data'' \<mapsto> demo_rows] (7::nat)) ''data'' = Some []"
proof -
  have "\<not> sublist ''.csv'' ''data''"
    by code_simp
  then have h: "\<not> sublist ''.csv'' (csv_file (demo_args\<lparr>csv_file := ''data''\<rparr>))"
    by (simp add: demo_args_def)
  have o: "output_file (demo_args\<lparr>csv_file := ''data''\<rparr>) = None"
    by (simp add: demo_args_def)
  show ?thesis
    using h default_output_path_without_csv
            [OF h o, of "[''data'' \<mapsto> demo_rows]" demo_os demo_lib 7]
    by (simp add: demo_args_def demo_os_def)
qed

text \<open>
  Where \<open>.csv\<close> occurs in the input path, \<open>str.replace\<close> rewrites the first occurrence and
  goes on with the rest \<open>q\<close> of the path. A path with \<open>.csv\<close> as its suffix and nowhere else
  gets the default the help text and the usage examples describe.
\<close>

lemma output_path_first_csv:
  assumes o: "output_file a = None"
    and c: "csv_file a = p @ ''.csv'' @ q"
    and n: "\<not> sublist ''.csv'' p"
  shows "output_path a = p @ ''_masked.csv'' @ output_path (a\<lparr>csv_file := q\<rparr>) \<and>
         (q = [] \<longrightarrow> output_path a = p @ ''_masked.csv'')"
proof -
  have d: "output_path b = str_replace ''.csv'' ''_masked.csv'' (csv_file b)"
    if "output_file b = None" for b
    using that by (simp add: output_path_def)
  have "output_path a = str_replace ''.csv'' ''_masked.csv'' (p @ ''.csv'' @ q)"
    using d [OF o] c by (simp only:)
  then have 1: "output_path a = p @ ''_masked.csv'' @ str_replace ''.csv'' ''_masked.csv'' q"
    using str_replace_csv_first [OF n, of q] by (simp only:)
  have 2: "output_path (a\<lparr>csv_file := q\<rparr>) = str_replace ''.csv'' ''_masked.csv'' q"
    using d [of "a\<lparr>csv_file := q\<rparr>"] o by simp
  from 1 2 have 3: "output_path a = p @ ''_masked.csv'' @ output_path (a\<lparr>csv_file := q\<rparr>)"
    by (simp only:)
  have "q = [] \<Longrightarrow> str_replace ''.csv'' ''_masked.csv'' q = []"
    by simp
  with 1 have 4: "q = [] \<longrightarrow> output_path a = p @ ''_masked.csv''"
    by simp
  from 3 4 show ?thesis ..
qed

text \<open>
  C5. The default output path is meant to be the input path with its suffix \<open>.csv\<close> replaced
  (the help text of \<open>--output_file\<close> and the usage examples say so), but line 100 replaces
  every occurrence: for the input path \<open>exports.csv/2023.csv\<close> the program writes to
  \<open>exports_masked.csv/2023_masked.csv\<close>, in another directory, and not to
  \<open>exports.csv/2023_masked.csv\<close>.
\<close>

theorem default_output_path_rewrites_directory:
  "output_path \<lparr>csv_file = ''exports.csv/2023.csv'', column_name = ''phone'',
                output_file = None, locale_name = ''en_US''\<rparr>
     = ''exports_masked.csv/2023_masked.csv'' \<and>
   output_path \<lparr>csv_file = ''exports.csv/2023.csv'', column_name = ''phone'',
                output_file = None, locale_name = ''en_US''\<rparr>
     \<noteq> ''exports.csv/2023_masked.csv''"
  by (simp add: output_path_def)

section \<open>The detector\<close>

text \<open>
  C3. The detector returns one of four tags. A value that is not a string, or is empty once
  stripped, is \<open>unknown\<close>. Otherwise the stripped value is tested in order: a prefix of
  the form \<open>YYYY-MM-DD\<close> gives \<open>date\<close>, else a prefix of the form \<open>MM/DD/YYYY\<close> gives
  \<open>date\<close>, else a prefix that is a \<open>$\<close> amount gives \<open>currency\<close>, else a prefix of the
  telephone shape gives \<open>telephone\<close>, else the tag is \<open>unknown\<close>. Whatever follows a text of
  one of the shapes does not change its tag. The five values of the specification get the
  tags it names.
\<close>

theorem detect_data_type_first_match:
  "detect_data_type v \<in> {''date'', ''currency'', ''telephone'', ''unknown''} \<and>
   detect_data_type NotStr = ''unknown'' \<and>
   detect_data_type (Str s) =
     (if strip s = [] then ''unknown''
      else if has_prefix_in iso_date_shape (strip s) then ''date''
      else if has_prefix_in us_date_shape (strip s) then ''date''
      else if has_prefix_in currency_shape (strip s) then ''currency''
      else if has_prefix_in telephone_shape (strip s) then ''telephone''
      else ''unknown'') \<and>
   (m \<in> iso_date_shape \<union> us_date_shape \<longrightarrow> detect_data_type (Str (m @ g)) = ''date'') \<and>
   (m \<in> currency_shape \<longrightarrow> detect_data_type (Str (m @ g)) = ''currency'') \<and>
   (m \<in> telephone_shape \<longrightarrow> detect_data_type (Str (m @ g)) = ''telephone'') \<and>
   detect_data_type (Str ''2023-05-01...'') = ''date'' \<and>
   detect_data_type (Str ''05/01/2023'') = ''date'' \<and>
   detect_data_type (Str ''$1,234.56'') = ''currency'' \<and>
   detect_data_type (Str ''+1 (555) 123-4567'') = ''telephone'' \<and>
   detect_data_type (Str []) = ''unknown''"
proof (intro conjI impI)
  show "detect_data_type v \<in> {''date'', ''currency'', ''telephone'', ''unknown''}"
    by (cases v) (simp_all add: detect_data_type_def Let_def)
  show "detect_data_type NotStr = ''unknown''"
    by (simp add: detect_data_type_def)
qed (rule detect_cascade detect_date_garbage detect_currency_garbage detect_telephone_any
       detect_examples, assumption?)+

theorem detect_data_type_first_match_witness:
  "''2023-05-01'' \<in> iso_date_shape \<union> us_date_shape \<and>
   detect_data_type (Str (''2023-05-01'' @ ''T10:00'')) = ''date'' \<and>
   ''$5'' \<in> currency_shape \<and>
   detect_data_type (Str (''$5'' @ '' each'')) = ''currency'' \<and>
   ''555-123-4567'' \<in> telephone_shape \<and>
   detect_data_type (Str (''555-123-4567'' @ '' ext. 9'')) = ''telephone''"
proof -
  have d: "''2023'' \<in> digits 4" "''05'' \<in> digits 2" "''01'' \<in> digits 2"
    "''555'' \<in> digits 3" "''123'' \<in> digits 3" "''4567'' \<in> digits 4"
    by (simp_all add: digits_def is_digit_def)
  have "''2023'' @ ''-'' @ ''05'' @ ''-'' @ ''01'' \<in> iso_date_shape"
    unfolding iso_date_shape_def by (intro conc_I d) simp_all
  then have 1: "''2023-05-01'' \<in> iso_date_shape \<union> us_date_shape" by simp
  have "''$'' @ ''5'' @ [] @ [] \<in> currency_shape"
    unfolding currency_shape_def
    by (intro conc_I star.star_Nil) (simp_all add: optional_def is_digit_def)
  then have 2: "''$5'' \<in> currency_shape" by simp
  have "[] @ [] @ [] @ ''555'' @ [] @ ''-'' @ ''123'' @ ''-'' @ ''4567'' \<in> telephone_shape"
    unfolding telephone_shape_def
    by (intro conc_I d) (simp_all add: optional_def separators_def)
  then have 3: "''555-123-4567'' \<in> telephone_shape" by simp
  from 1 2 3
    detect_data_type_first_match [of _ _ "''2023-05-01''" "''T10:00''"]
    detect_data_type_first_match [of _ _ "''$5''" "'' each''"]
    detect_data_type_first_match [of _ _ "''555-123-4567''" "'' ext. 9''"]
  show ?thesis by blast
qed

text \<open>
  C9. The detector gives a string and the same string without its surrounding whitespace
  the same tag.
\<close>

theorem detect_data_type_ignores_surrounding_whitespace:
  "detect_data_type (Str s) = detect_data_type (Str (strip s))"
  by (simp add: detect_data_type_def strip_idem)

section \<open>The run\<close>

text \<open>
  C8. When the header row is read and written and the target column is not one of its
  names, the run logs an error and ends with exit code 1; the output holds the header row
  and nothing else, and no value was fabricated.
\<close>

theorem missing_column_is_fatal:
  assumes "fs (csv_file a) = Some (header # rows)"
    and "output_path a \<noteq> csv_file a"
    and "open_write_error W (output_path a) = None"
    and "write_error W 0 header = None"
    and "column_name a \<notin> set header"
  shows "exit_code (main L W a fs g) = 1 \<and>
         files_after (main L W a fs g) (output_path a) = Some [header] \<and>
         logged (main L W a fs g) = [Column_not_found (column_name a)] \<and>
         level_of (Column_not_found (column_name a)) = ERROR \<and>
         rng_after (main L W a fs g) = g"
proof -
  from assms(5) have "index_of header (column_name a) = None"
    by (simp add: index_of_None_iff)
  with assms(1-4) show ?thesis
    by (simp add: main_def Let_def writerow_def)
qed

theorem missing_column_is_fatal_witness:
  "exit_code (main demo_lib demo_os (demo_args\<lparr>column_name := ''email''\<rparr>) demo_files (7::nat)) = 1 \<and>
   files_after (main demo_lib demo_os (demo_args\<lparr>column_name := ''email''\<rparr>) demo_files (7::nat))
     ''data_masked.csv'' = Some [[''id'', ''phone'', ''note'']] \<and>
   logged (main demo_lib demo_os (demo_args\<lparr>column_name := ''email''\<rparr>) demo_files (7::nat))
     = [Column_not_found ''email'']"
proof -
  let ?a = "demo_args\<lparr>column_name := ''email''\<rparr>"
  have o: "output_path ?a = ''data_masked.csv''"
    by (simp add: output_path_def demo_args_def)
  have 1: "demo_files (csv_file ?a) = Some ([''id'', ''phone'', ''note''] # tl demo_rows)"
    by (simp add: demo_files_def demo_args_def demo_rows_def)
  have 2: "output_path ?a \<noteq> csv_file ?a"
    by (simp add: o) (simp add: demo_args_def)
  have 3: "open_write_error demo_os (output_path ?a) = None"
    by (simp add: demo_os_def)
  have 4: "write_error demo_os 0 [''id'', ''phone'', ''note''] = None"
    by (simp add: demo_os_def)
  have 5: "column_name ?a \<notin> set [''id'', ''phone'', ''note'']"
    by (simp add: demo_args_def)
  show ?thesis
    using missing_column_is_fatal
            [where fs = demo_files and a = "?a" and W = demo_os and L = demo_lib and g = 7
               and header = "[''id'', ''phone'', ''note'']" and rows = "tl demo_rows",
             OF 1 2 3 4 5] o
    by (simp add: demo_args_def)
qed



text \<open>
  What a failure inside the loop body leads to. A row that is too short, or an exception
  raised while the cell is classified and fabricated, reaches a handler with the row as
  read: when the handler's write succeeds, the original row is written, one line is logged
  and the loop goes on.
\<close>

lemma row_failure_before_write:
  assumes a: "length r \<le> k \<or>
       (\<exists>e lg g'. permute_data_format L (r ! k) (detect_data_type (Str (r ! k))) loc (rng st)
                    = (Inl e, lg, g'))"
    and ok: "write_error W (writes st) r = None"
  shows "\<exists>st' lg entry.
         process_row L W loc k r st = (None, st') \<and>
         written st' = written st @ [r] \<and>
         logs st' = logs st @ lg @ [entry] \<and>
         (entry = Row_fewer_columns \<or> (\<exists>e. entry = Error_processing_row e)) \<and>
         process_rows L W loc k (r # rs) st = process_rows L W loc k rs st'"
proof (cases "length r \<le> k")
  case True
  then have "process_row L W loc k r st = row_handler W IndexError r st"
    by (simp add: process_row_def)
  with row_handler_ok [OF ok, of IndexError]
  have "process_row L W loc k r st =
          (None, st\<lparr>logs := logs st @ [Row_fewer_columns], written := written st @ [r],
                   writes := Suc (writes st)\<rparr>)"
    by simp
  then show ?thesis
    by (intro exI [where x = "st\<lparr>logs := logs st @ [Row_fewer_columns],
                                 written := written st @ [r], writes := Suc (writes st)\<rparr>"])
       (rule exI [of _ "[]"], rule exI [of _ Row_fewer_columns], simp)
next
  case False
  with a obtain e lg g' where p:
    "permute_data_format L (r ! k) (detect_data_type (Str (r ! k))) loc (rng st) = (Inl e, lg, g')"
    by blast
  let ?st1 = "st\<lparr>rng := g', logs := logs st @ lg\<rparr>"
  from False p have pr: "process_row L W loc k r st = row_handler W e r ?st1"
    by (simp add: process_row_def)
  let ?entry = "if e = IndexError then Row_fewer_columns else Error_processing_row e"
  from ok have ok1: "write_error W (writes ?st1) r = None" by simp
  from row_handler_ok [OF ok1, of e] pr
  have "process_row L W loc k r st =
          (None, ?st1\<lparr>logs := logs ?st1 @ [?entry], written := written ?st1 @ [r],
                     writes := Suc (writes ?st1)\<rparr>)"
    by simp
  then show ?thesis
    by (intro exI [where x = "?st1\<lparr>logs := logs ?st1 @ [?entry],
                                   written := written ?st1 @ [r],
                                   writes := Suc (writes ?st1)\<rparr>"])
       (rule exI [of _ lg], rule exI [of _ ?entry], simp)
qed

text \<open>
  When the write of line 125 raises, the cell is already overwritten (line 124): the handler
  logs and writes the row with the fabricated value. If that write succeeds the fabricated
  row is in the output and the loop goes on; if it raises, the exception leaves the loop.
\<close>

lemma row_failure_at_write:
  assumes k: "k < length r"
    and p: "permute_data_format L (r ! k) (detect_data_type (Str (r ! k))) loc (rng st)
              = (Inr m, lg, g')"
    and w: "write_error W (writes st) (r[k := m]) = Some e"
  shows "process_row L W loc k r st =
           (case write_error W (Suc (writes st)) (r[k := m]) of
              None \<Rightarrow>
                (None,
                 st\<lparr>rng := g',
                    logs := logs st @ lg @ [if e = IndexError then Row_fewer_columns
                                             else Error_processing_row e],
                    written := written st @ [r[k := m]],
                    writes := Suc (Suc (writes st))\<rparr>)
            | Some e' \<Rightarrow>
                (Some e',
                 st\<lparr>rng := g',
                    logs := logs st @ lg @ [if e = IndexError then Row_fewer_columns
                                             else Error_processing_row e],
                    writes := Suc (Suc (writes st))\<rparr>))"
  using k p w
  by (simp add: process_row_def row_handler_def writerow_def split: option.splits)

text \<open>
  An exception that leaves the loop ends the run with exit code 1: on a disk that is full
  after the header, the write of the first row raises, the handler's write raises again,
  and the output holds the header only.
\<close>

lemma demo_full_disk_run:
  "exit_code (main demo_lib (full_after 1) demo_args demo_files (7::nat)) = 1 \<and>
   files_after (main demo_lib (full_after 1) demo_args demo_files (7::nat)) ''data_masked.csv''
     = Some [[''id'', ''phone'', ''note'']] \<and>
   logged (main demo_lib (full_after 1) demo_args demo_files (7::nat))
     = [Error_processing_row OSError, Unexpected_error OSError]"
  by (simp add: demo_eval)

text \<open>
  C4. The handler of line 129 is meant to write the original row (its log line and the
  comment on line 131 say so), but the row is overwritten on line 124, before the write of
  line 125. When that write raises once and the handler's write succeeds, the run goes on
  to exit code 0 with the logged line of an error and the fabricated row
  \<open>1, 555-0100, a\<close> in the output, not the original row \<open>1, 555-123-4567, a\<close>.
\<close>

theorem failed_write_leaves_fabricated_row:
  "exit_code (main demo_lib (fails_once 1) demo_args demo_files (7::nat)) = 0 \<and>
   files_after (main demo_lib (fails_once 1) demo_args demo_files (7::nat)) ''data_masked.csv''
     = Some [[''id'', ''phone'', ''note''], [''1'', ''555-0100'', ''a''], [''2''],
             [''3'', ''IJK'', ''b'']] \<and>
   logged (main demo_lib (fails_once 1) demo_args demo_files (7::nat))
     = [Error_processing_row OSError, Row_fewer_columns, Unknown_data_type ''unknown'',
        Masking_completed ''data_masked.csv''] \<and>
   demo_files ''data.csv''
     = Some [[''id'', ''phone'', ''note''], [''1'', ''555-123-4567'', ''a''], [''2''],
             [''3'', ''n/a'', ''b'']]"
  by (simp add: demo_eval fails_once_def)

section \<open>The fabricator's results\<close>


lemma demo_strip_amount: "str_replace '','' [] (str_replace ''$'' [] ''$1,234.56'') = ''1234.56''"
  by simp




text \<open>
  C2. The claim holds of the body of the \<open>try\<close>, but the \<open>Faker\<close> object is built before
  the \<open>try\<close> opens: for a locale the constructor rejects, \<open>permute_data_format\<close> raises.
  The lemmas \<open>permute_returns\<close>, \<open>permute_fallback\<close> and \<open>permute_raises_iff\<close> above say
  that this is the only way out.
\<close>

theorem permute_data_format_raises_on_bad_locale:
  "permute_data_format demo_lib ''2023-05-01'' ''date'' ''xx_XX'' (0::nat)
     = (Inl AttributeError, [], 0)"
  by (simp add: permute_data_format_def demo_lib_def)




text \<open>
  C7. For a value tagged \<open>unknown\<close>, when the \<open>Faker\<close> object is built and the library is as
  documented, \<open>permute_data_format\<close> returns a string as long as the value, empty for the
  empty value; it is the string of letters drawn by \<open>pystr\<close> whenever that call returns.
\<close>

theorem unknown_keeps_length:
  assumes "Faker L loc = None" and "pystr_documented L"
  shows "(\<exists>r lg g'. permute_data_format L x ''unknown'' loc g = (Inr r, lg, g') \<and>
            length r = length x \<and> (x = [] \<longrightarrow> r = [])) \<and>
         (\<forall>s g1. pystr L loc (length x) (length x) g = (Inr s, g1) \<longrightarrow>
            permute_data_format L x ''unknown'' loc g
              = (Inr s, [Unknown_data_type ''unknown''], g1) \<and>
            length s = length x \<and> list_all is_letter s)"
proof -
  obtain res g1 where p: "pystr L loc (length x) (length x) g = (res, g1)"
    by (cases "pystr L loc (length x) (length x) g")
  have doc: "length s = length x \<and> list_all is_letter s" if "res = Inr s" for s
    using assms(2) p that unfolding pystr_documented_def by fastforce
  show ?thesis
  proof (cases res)
    case (Inl e)
    with p assms(1) show ?thesis
      by (simp add: permute_data_format_def fabricate_def)
  next
    case (Inr s)
    with p assms(1) doc [OF Inr] show ?thesis
      by (auto simp: permute_data_format_def fabricate_def)
  qed
qed

theorem unknown_keeps_length_witness:
  "permute_data_format demo_lib ''n/a'' ''unknown'' ''en_US'' (7::nat)
     = (Inr ''HIJ'', [Unknown_data_type ''unknown''], 8) \<and>
   length ''HIJ'' = length ''n/a'' \<and> list_all is_letter ''HIJ''"
proof -
  have 1: "Faker demo_lib ''en_US'' = None"
    by (simp add: demo_lib_def)
  have 2: "pystr demo_lib ''en_US'' (length ''n/a'') (length ''n/a'') (7::nat) = (Inr ''HIJ'', 8)"
    by (simp add: demo_lib_def demo_letter_def)
  from unknown_keeps_length [OF 1 demo_lib_pystr_documented, of "''n/a''" 7] 2
  show ?thesis by blast
qed

end
